theory Spec2Isabelle
  imports Complex_Main
begin

section \<open>Removing similar line segments: the embedding\<close>

text \<open>
  The module \<^verbatim>\<open>remove_similar_lines.py\<close> clusters line segments by a pairwise
  distance and keeps one segment per cluster. Its functions are embedded one by one, in
  the order of the source.

  Numbers. A Python \<^verbatim>\<open>float\<close> that is computed by arithmetic is a \<^typ>\<open>real\<close>
  here: overflow and NaN are not part of this model, and sums, products, quotients,
  square roots and \<^verbatim>\<open>math.atan2\<close> are exact. Two things are kept as the machine has
  them, because the range of \<open>line_angle\<close> depends on them: the constant
  \<^verbatim>\<open>math.pi\<close> is the double nearest to \<open>\<pi>\<close> (\<open>math_pi\<close>), and the remainder
  \<^verbatim>\<open>a % b\<close> rounds the one addition it performs to the nearest double
  (\<open>float_round\<close>). The one non-finite value the source
  writes down itself, \<^verbatim>\<open>float('inf')\<close>, is kept: values that may be infinite
  (a distance, a matrix entry, a threshold) have the type \<open>pyfloat\<close>.

  Errors. Every \<^verbatim>\<open>raise\<close> of the source and every exception of an operation it
  uses (a float division by zero, \<^verbatim>\<open>max\<close> or \<^verbatim>\<open>min\<close> of an empty sequence,
  an index out of range) is a value \<open>Inl e\<close> of a sum type.
\<close>

subsection \<open>Values and errors\<close>

type_synonym segment = "real \<times> real \<times> real \<times> real"
type_synonym canonical = "real \<times> real \<times> real"
type_synonym point = "real \<times> real"

datatype pyfloat = NInf | Fin real | PInf

text \<open>The comparison \<^verbatim>\<open>a <= b\<close> of two floats.\<close>

fun float_le :: "pyfloat \<Rightarrow> pyfloat \<Rightarrow> bool" where
  "float_le NInf b = True"
| "float_le (Fin a) NInf = False"
| "float_le (Fin a) (Fin b) = (a \<le> b)"
| "float_le (Fin a) PInf = True"
| "float_le PInf NInf = False"
| "float_le PInf (Fin b) = False"
| "float_le PInf PInf = True"

text \<open>
  A \<^verbatim>\<open>ValueError\<close> that the source raises carries its message, a Python
  \<^verbatim>\<open>str\<close>: the list of its Unicode code points (the messages are Russian; a method
  name is ASCII and has the type \<^typ>\<open>string\<close>). \<open>EmptySequence\<close> is the
  \<^verbatim>\<open>ValueError\<close> of \<^verbatim>\<open>min\<close> and \<^verbatim>\<open>max\<close> on an empty sequence.
\<close>

datatype value_error = Message "nat list" | EmptySequence

datatype error = ValueError value_error | ZeroDivisionError | IndexError

text \<open>Sequencing of computations that may raise.\<close>

fun bind_err :: "error + 'a \<Rightarrow> ('a \<Rightarrow> error + 'b) \<Rightarrow> error + 'b" where
  "bind_err (Inl e) f = Inl e"
| "bind_err (Inr x) f = f x"

text \<open>A list comprehension or generator whose elements may raise: the first error wins.\<close>

fun collect :: "(error + 'a) list \<Rightarrow> error + 'a list" where
  "collect [] = Inr []"
| "collect (r # rs) = bind_err r (\<lambda>x. bind_err (collect rs) (\<lambda>xs. Inr (x # xs)))"

text \<open>\<^verbatim>\<open>xs[i]\<close> for a non-negative index.\<close>

definition get :: "'a list \<Rightarrow> nat \<Rightarrow> error + 'a" where
  "get xs i = (if i < length xs then Inr (xs ! i) else Inl IndexError)"

text \<open>\<^verbatim>\<open>min(xs)\<close> on floats.\<close>

fun py_min :: "real list \<Rightarrow> error + real" where
  "py_min [] = Inl (ValueError EmptySequence)"
| "py_min (x # xs) = Inr (fold (\<lambda>y m. if y < m then y else m) xs x)"

text \<open>
  \<^verbatim>\<open>max(xs, key=f)\<close>: the first element whose key is maximal (a later element
  replaces the current one only when its key is strictly greater).
\<close>

fun py_max_key :: "('a \<Rightarrow> real) \<Rightarrow> 'a list \<Rightarrow> error + 'a" where
  "py_max_key f [] = Inl (ValueError EmptySequence)"
| "py_max_key f (x # xs) = Inr (fold (\<lambda>y m. if f y > f m then y else m) xs x)"

text \<open>
  \<^verbatim>\<open>math.atan2(y, x)\<close> on reals: the angle of the point \<open>(x, y)\<close> in \<open>(-\<pi>, \<pi>]\<close>.
\<close>

definition atan2 :: "real \<Rightarrow> real \<Rightarrow> real" where
  "atan2 y x =
     (if x > 0 then arctan (y / x)
      else if x < 0 then (if y \<ge> 0 then arctan (y / x) + pi else arctan (y / x) - pi)
      else if y > 0 then pi / 2
      else if y < 0 then - (pi / 2)
      else 0)"

text \<open>
  \<^verbatim>\<open>math.pi\<close>: the double \<^verbatim>\<open>0x1.921fb54442d18p+1\<close>, which is
  \<open>884279719003555 / 2\<^sup>4\<^sup>8\<close>.
\<close>

definition math_pi :: real where
  "math_pi = 884279719003555 / 2 ^ 48"

text \<open>
  Rounding of a real to the nearest double, ties to the even significand: a double has a
  significand of 53 bits, so the spacing of the doubles around \<open>x\<close> is
  \<open>2\<^sup>e\<^sup>-\<^sup>5\<^sup>2\<close> for the binary exponent \<open>e\<close> of \<open>x\<close>, and not less than
  \<open>2\<^sup>-\<^sup>1\<^sup>0\<^sup>7\<^sup>4\<close>. (Results beyond the largest double do not occur where it is used.)
\<close>

definition round_half_even :: "real \<Rightarrow> int" where
  "round_half_even x =
     (let f = \<lfloor>x\<rfloor>; d = x - of_int f
      in if d < 1 / 2 then f else if 1 / 2 < d then f + 1 else if even f then f else f + 1)"

definition float_round :: "real \<Rightarrow> real" where
  "float_round x =
     (if x = 0 then 0
      else let e = max \<lfloor>log 2 \<bar>x\<bar>\<rfloor> (- 1022); u = 2 powr (of_int e - 52)
           in u * of_int (round_half_even (x / u)))"

text \<open>
  \<^verbatim>\<open>a % b\<close> on floats, for \<open>b \<noteq> 0\<close>. The interpreter takes the C remainder
  \<^verbatim>\<open>fmod(a, b)\<close>, which is exact and has the sign of \<open>a\<close>, and when it is not zero
  and its sign differs from the sign of \<open>b\<close> it adds \<open>b\<close> to it: that addition is a
  float addition.
\<close>

definition fmod :: "real \<Rightarrow> real \<Rightarrow> real" where
  "fmod a b = a - b * of_int (if 0 \<le> a / b then \<lfloor>a / b\<rfloor> else \<lceil>a / b\<rceil>)"

definition float_mod :: "real \<Rightarrow> real \<Rightarrow> real" where
  "float_mod a b =
     (let m = fmod a b
      in if m \<noteq> 0 then (if (b < 0) \<noteq> (m < 0) then float_round (m + b) else m) else 0)"

subsection \<open>Geometry primitives\<close>

definition line_to_canonical :: "segment \<Rightarrow> canonical" where
  "line_to_canonical line =
     (case line of (x1, y1, x2, y2) \<Rightarrow>
        let A = y2 - y1;
            B = x1 - x2;
            C = x2 * y1 - x1 * y2;
            nrm = sqrt (A\<^sup>2 + B\<^sup>2)
        in if nrm > 0 then (A / nrm, B / nrm, C / nrm) else (A, B, C))"

text \<open>The division raises \<^verbatim>\<open>ZeroDivisionError\<close> when the divisor is zero.\<close>

definition point_to_line_distance :: "point \<Rightarrow> canonical \<Rightarrow> error + real" where
  "point_to_line_distance p line =
     (case p of (x, y) \<Rightarrow> case line of (A, B, C) \<Rightarrow>
        if sqrt (A\<^sup>2 + B\<^sup>2) = 0 then Inl ZeroDivisionError
        else Inr (\<bar>A * x + B * y + C\<bar> / sqrt (A\<^sup>2 + B\<^sup>2)))"

definition line_center :: "segment \<Rightarrow> point" where
  "line_center line = (case line of (x1, y1, x2, y2) \<Rightarrow> ((x1 + x2) / 2, (y1 + y2) / 2))"

definition line_angle :: "canonical \<Rightarrow> real" where
  "line_angle line =
     (case line of (A, B, C) \<Rightarrow>
        if B = 0 then math_pi / 2 else float_mod (atan2 (- A) B) math_pi)"

subsection \<open>The distance of two lines\<close>

text \<open>
  The message of the three \<^verbatim>\<open>raise\<close> statements for absent points. The source writes
  three literals that differ in the name of the method only; in English: "For the method
  '\<open>name\<close>' the source points of the lines are needed". No literal mentions a
  parameter.
\<close>

definition points_needed_message :: "string \<Rightarrow> nat list" where
  "points_needed_message name =
     [1044, 1083, 1103, 32, 1084, 1077, 1090, 1086, 1076, 1072, 32, 39]
     @ map of_char name
     @ [39, 32, 1085, 1091, 1078, 1085, 1099, 32, 1080, 1089, 1093, 1086, 1076, 1085, 1099,
        1077, 32, 1090, 1086, 1095, 1082, 1080, 32, 1083, 1080, 1085, 1080, 1081]"

text \<open>
  The message of the last \<^verbatim>\<open>raise\<close>, an f-string that ends with the method; in
  English: "Unknown method: \<open>method\<close>".
\<close>

definition unknown_method_message :: "string \<Rightarrow> nat list" where
  "unknown_method_message method =
     [1053, 1077, 1080, 1079, 1074, 1077, 1089, 1090, 1085, 1099, 1081, 32, 1084, 1077, 1090,
      1086, 1076, 58, 32]
     @ map of_char method"

text \<open>
  The angular part shared by the methods \<^verbatim>\<open>angle\<close> and \<^verbatim>\<open>combined\<close>
  (the source writes it out in both branches).
\<close>

definition angle_diff :: "canonical \<Rightarrow> canonical \<Rightarrow> real" where
  "angle_diff l1 l2 =
     (let angle1 = line_angle l1; angle2 = line_angle l2
      in min \<bar>angle1 - angle2\<bar> (math_pi - \<bar>angle1 - angle2\<bar>))"

text \<open>
  One pass of the Hausdorff loop: for each point \<open>p\<close> of \<open>ps\<close>, the minimum over the
  points \<open>q\<close> of \<open>qs\<close> of the distance of \<open>p\<close> to the line (the generator does not use
  \<open>q\<close>), folded into the running maximum.
\<close>

fun hausdorff_pass :: "point list \<Rightarrow> point list \<Rightarrow> canonical \<Rightarrow> real \<Rightarrow> error + real" where
  "hausdorff_pass [] qs l max_min_dist = Inr max_min_dist"
| "hausdorff_pass (p # ps) qs l max_min_dist =
     bind_err (collect (map (\<lambda>q. point_to_line_distance p l) qs)) (\<lambda>ds.
     bind_err (py_min ds) (\<lambda>min_dist.
     hausdorff_pass ps qs l (max max_min_dist min_dist)))"

definition lines_distance ::
  "canonical \<Rightarrow> canonical \<Rightarrow> segment option \<Rightarrow> segment option \<Rightarrow> string \<Rightarrow> error + pyfloat"
where
  "lines_distance line1_canonical line2_canonical line1_points line2_points method =
     (case line1_canonical of (A1, B1, C1) \<Rightarrow> case line2_canonical of (A2, B2, C2) \<Rightarrow>
      if method = ''parallel'' then
        (let dot_product = \<bar>A1 * A2 + B1 * B2\<bar>
         in if dot_product < 0.95 then Inr PInf else Inr (Fin \<bar>C2 - C1\<bar>))
      else if method = ''angle'' then
        Inr (Fin (angle_diff line1_canonical line2_canonical * 100))
      else if method = ''center'' then
        (case (line1_points, line2_points) of
           (Some p1, Some p2) \<Rightarrow>
             (let center1 = line_center p1; center2 = line_center p2;
                  dx = fst center1 - fst center2;
                  dy = snd center1 - snd center2
              in Inr (Fin (sqrt (dx\<^sup>2 + dy\<^sup>2))))
         | _ \<Rightarrow> Inl (ValueError (Message (points_needed_message ''center''))))
      else if method = ''combined'' then
        (case (line1_points, line2_points) of
           (Some p1, Some p2) \<Rightarrow>
             (let adiff = angle_diff line1_canonical line2_canonical;
                  center1 = line_center p1; center2 = line_center p2;
                  center_distance =
                    sqrt ((fst center1 - fst center2)\<^sup>2 + (snd center1 - snd center2)\<^sup>2)
              in bind_err (point_to_line_distance center1 line2_canonical) (\<lambda>dist1_to_2.
                 bind_err (point_to_line_distance center2 line1_canonical) (\<lambda>dist2_to_1.
                 let line_distance = (dist1_to_2 + dist2_to_1) / 2
                 in Inr (Fin (adiff * 50 + center_distance * 0.5 + line_distance * 1.0)))))
         | _ \<Rightarrow> Inl (ValueError (Message (points_needed_message ''combined''))))
      else if method = ''hausdorff'' then
        (case (line1_points, line2_points) of
           (Some (x1, y1, x2, y2), Some (u1, v1, u2, v2)) \<Rightarrow>
             (let points1 = [(x1, y1), (x2, y2)];
                  points2 = [(u1, v1), (u2, v2)]
              in bind_err (hausdorff_pass points1 points2 line2_canonical 0) (\<lambda>m1.
                 bind_err (hausdorff_pass points2 points1 line1_canonical m1) (\<lambda>m2.
                 Inr (Fin m2))))
         | _ \<Rightarrow> Inl (ValueError (Message (points_needed_message ''hausdorff''))))
      else Inl (ValueError (Message (unknown_method_message method))))"

subsection \<open>The matrix of pairwise distances\<close>

type_synonym matrix = "pyfloat list list"

text \<open>\<^verbatim>\<open>distance_matrix[i, j] = d\<close>\<close>

definition set_entry :: "matrix \<Rightarrow> nat \<Rightarrow> nat \<Rightarrow> pyfloat \<Rightarrow> matrix" where
  "set_entry M i j d = M[i := (M ! i)[j := d]]"

definition needs_points :: "string \<Rightarrow> bool" where
  "needs_points method = (method \<in> set [''center'', ''combined'', ''hausdorff''])"

text \<open>
  The inner loop \<^verbatim>\<open>for j in range(i + 1, n)\<close> and the outer loop
  \<^verbatim>\<open>for i in range(n)\<close>; both run over indices below \<open>n = len(lines)\<close>, the
  length of \<open>lines\<close> and of \<open>canonical_lines\<close>.
\<close>

fun distances_row ::
  "segment list \<Rightarrow> canonical list \<Rightarrow> string \<Rightarrow> nat \<Rightarrow> nat list \<Rightarrow> matrix \<Rightarrow> error + matrix"
where
  "distances_row lines canonical_lines method i [] M = Inr M"
| "distances_row lines canonical_lines method i (j # js) M =
     bind_err
       (lines_distance (canonical_lines ! i) (canonical_lines ! j)
          (if needs_points method then Some (lines ! i) else None)
          (if needs_points method then Some (lines ! j) else None)
          method)
       (\<lambda>distance.
          distances_row lines canonical_lines method i js
            (set_entry (set_entry M i j distance) j i distance))"

fun distances_rows ::
  "segment list \<Rightarrow> canonical list \<Rightarrow> string \<Rightarrow> nat list \<Rightarrow> matrix \<Rightarrow> error + matrix"
where
  "distances_rows lines canonical_lines method [] M = Inr M"
| "distances_rows lines canonical_lines method (i # is) M =
     bind_err
       (distances_row lines canonical_lines method i [i + 1 ..< length lines] M)
       (distances_rows lines canonical_lines method is)"

definition calculate_line_distances :: "segment list \<Rightarrow> string \<Rightarrow> error + matrix" where
  "calculate_line_distances lines method =
     (let n = length lines;
          distance_matrix = replicate n (replicate n (Fin 0));
          canonical_lines = map line_to_canonical lines
      in distances_rows lines canonical_lines method [0 ..< n] distance_matrix)"

subsection \<open>Grouping and reduction\<close>

text \<open>
  The inner loop \<^verbatim>\<open>for j in range(n)\<close> of \<^verbatim>\<open>find_similar_lines\<close>, on the
  state \<open>(grp, visited)\<close> (the group under construction and the visited set), and its outer loop, on the state \<open>(visited, groups)\<close>.
\<close>

fun grow_group ::
  "matrix \<Rightarrow> pyfloat \<Rightarrow> nat \<Rightarrow> nat list \<Rightarrow> nat list \<times> nat set \<Rightarrow> nat list \<times> nat set"
where
  "grow_group M threshold i [] (grp, visited) = (grp, visited)"
| "grow_group M threshold i (j # js) (grp, visited) =
     (if j \<notin> visited \<and> float_le (M ! i ! j) threshold
      then grow_group M threshold i js (grp @ [j], insert j visited)
      else grow_group M threshold i js (grp, visited))"

fun collect_groups ::
  "matrix \<Rightarrow> pyfloat \<Rightarrow> nat \<Rightarrow> nat list \<Rightarrow> nat set \<times> nat list list \<Rightarrow> nat set \<times> nat list list"
where
  "collect_groups M threshold n [] (visited, groups) = (visited, groups)"
| "collect_groups M threshold n (i # is) (visited, groups) =
     (if i \<in> visited then collect_groups M threshold n is (visited, groups)
      else
        (case grow_group M threshold i [0 ..< n] ([i], insert i visited) of
           (grp, visited') \<Rightarrow>
             collect_groups M threshold n is (visited', groups @ [grp])))"

definition find_similar_lines ::
  "segment list \<Rightarrow> pyfloat \<Rightarrow> string \<Rightarrow> error + nat list list"
where
  "find_similar_lines lines threshold method =
     bind_err (calculate_line_distances lines method) (\<lambda>distance_matrix.
       let n = length lines
       in Inr (snd (collect_groups distance_matrix threshold n [0 ..< n] ({}, []))))"

definition line_length :: "segment \<Rightarrow> real" where
  "line_length line = (case line of (x1, y1, x2, y2) \<Rightarrow> sqrt ((x2 - x1)\<^sup>2 + (y2 - y1)\<^sup>2))"

text \<open>The body of the loop \<^verbatim>\<open>for group in groups\<close>: the segment appended.\<close>

definition representative :: "segment list \<Rightarrow> bool \<Rightarrow> nat list \<Rightarrow> error + segment" where
  "representative lines keep_longest grp =
     (if keep_longest
      then bind_err (collect (map (get lines) grp)) (py_max_key line_length)
      else bind_err (get grp 0) (get lines))"

definition remove_similar_lines ::
  "segment list \<Rightarrow> pyfloat \<Rightarrow> string \<Rightarrow> bool \<Rightarrow> error + segment list"
where
  "remove_similar_lines lines threshold method keep_longest =
     bind_err (find_similar_lines lines threshold method) (\<lambda>groups.
       collect (map (representative lines keep_longest) groups))"

subsection \<open>Notions used in the statements\<close>

text \<open>A canonical line is degenerate when \<open>A = B = 0\<close>: it is the line of no segment.\<close>

definition degenerate :: "canonical \<Rightarrow> bool" where
  "degenerate l = (case l of (A, B, C) \<Rightarrow> A = 0 \<and> B = 0)"

text \<open>
  The Hausdorff method as the specification words it: the maximum of the four distances
  of an endpoint to the canonical line of the other segment, with no inner minimum and
  no initial value. It is compared with the loops of \<open>lines_distance\<close> below.
\<close>

definition hausdorff_max4 ::
  "canonical \<Rightarrow> canonical \<Rightarrow> segment \<Rightarrow> segment \<Rightarrow> error + pyfloat"
where
  "hausdorff_max4 l1 l2 s1 s2 =
     (case s1 of (x1, y1, x2, y2) \<Rightarrow> case s2 of (u1, v1, u2, v2) \<Rightarrow>
        bind_err (point_to_line_distance (x1, y1) l2) (\<lambda>d1.
        bind_err (point_to_line_distance (x2, y2) l2) (\<lambda>d2.
        bind_err (point_to_line_distance (u1, v1) l1) (\<lambda>d3.
        bind_err (point_to_line_distance (u2, v2) l1) (\<lambda>d4.
        Inr (Fin (max (max d1 d2) (max d3 d4))))))))"


text \<open>
  The group that \<open>find_similar_lines\<close> opens at the founder \<open>i\<close> when \<open>visited\<close> is the
  set of indices already placed: \<open>i\<close> first, then in ascending order every \<open>j\<close> that is
  not visited, is not \<open>i\<close>, and is within the threshold of \<open>i\<close>.
\<close>

definition group_of :: "matrix \<Rightarrow> pyfloat \<Rightarrow> nat \<Rightarrow> nat set \<Rightarrow> nat \<Rightarrow> nat list" where
  "group_of M threshold n visited i =
     i # filter (\<lambda>j. j \<notin> visited \<and> j \<noteq> i \<and> float_le (M ! i ! j) threshold) [0 ..< n]"

text \<open>
  A list of groups is well formed when each group is the group of its founder over the
  indices of the earlier groups, and its founder is the least index in no earlier group.
\<close>

definition groups_ok :: "matrix \<Rightarrow> pyfloat \<Rightarrow> nat \<Rightarrow> nat list list \<Rightarrow> bool" where
  "groups_ok M threshold n groups \<longleftrightarrow>
     (\<forall>k<length groups.
        groups ! k \<noteq> []
        \<and> hd (groups ! k) < n
        \<and> hd (groups ! k) \<notin> set (concat (take k groups))
        \<and> (\<forall>x<hd (groups ! k). x \<in> set (concat (take k groups)))
        \<and> groups ! k =
            group_of M threshold n (set (concat (take k groups))) (hd (groups ! k)))"

section \<open>Properties\<close>

subsection \<open>Geometry primitives\<close>

lemma sqrt_sumsq_zero_iff: "sqrt (A\<^sup>2 + B\<^sup>2) = 0 \<longleftrightarrow> A = 0 \<and> B = (0::real)"
  by simp

text \<open>The two branches of \<open>line_to_canonical\<close>, by the endpoints of the segment.\<close>

lemma canon_cases:
  "line_to_canonical (x1, y1, x2, y2) =
    (if x1 = x2 \<and> y1 = y2 then (0, 0, 0) else
      ((y2 - y1) / sqrt ((y2 - y1)\<^sup>2 + (x1 - x2)\<^sup>2),
       (x1 - x2) / sqrt ((y2 - y1)\<^sup>2 + (x1 - x2)\<^sup>2),
       (x2 * y1 - x1 * y2) / sqrt ((y2 - y1)\<^sup>2 + (x1 - x2)\<^sup>2)))"
  by (auto simp: line_to_canonical_def Let_def sum_power2_gt_zero_iff)

lemma canon_scaled:
  "\<exists>n c. line_to_canonical (x1, y1, x2, y2) = ((y2 - y1) / n, (x1 - x2) / n, c)"
proof (cases "x1 = x2 \<and> y1 = y2")
  case True
  then have "line_to_canonical (x1, y1, x2, y2) = ((y2 - y1) / 1, (x1 - x2) / 1, 0)"
    by (simp add: canon_cases)
  then show ?thesis by blast
next
  case False
  then have "line_to_canonical (x1, y1, x2, y2) =
      ((y2 - y1) / sqrt ((y2 - y1)\<^sup>2 + (x1 - x2)\<^sup>2),
       (x1 - x2) / sqrt ((y2 - y1)\<^sup>2 + (x1 - x2)\<^sup>2),
       (x2 * y1 - x1 * y2) / sqrt ((y2 - y1)\<^sup>2 + (x1 - x2)\<^sup>2))"
    by (simp add: canon_cases)
  then show ?thesis by blast
qed

text \<open>
  Claim C10. For a canonical line with \<open>(A, B) \<noteq> (0, 0)\<close> the divisor
  \<open>sqrt (A\<^sup>2 + B\<^sup>2)\<close> is not zero and \<open>point_to_line_distance\<close> returns
  \<open>\<bar>A x + B y + C\<bar> / sqrt (A\<^sup>2 + B\<^sup>2)\<close>; for a degenerate line, \<open>(A, B) = (0, 0)\<close>,
  the division by zero surfaces as the error \<open>ZeroDivisionError\<close>, never as a value.
\<close>

theorem point_to_line_distance_value_or_zero_division:
  "((A, B) \<noteq> (0, 0) \<longrightarrow>
      sqrt (A\<^sup>2 + B\<^sup>2) \<noteq> 0 \<and>
      point_to_line_distance (x, y) (A, B, C) =
        Inr (\<bar>A * x + B * y + C\<bar> / sqrt (A\<^sup>2 + B\<^sup>2)))
   \<and> ((A, B) = (0, 0) \<longrightarrow>
      point_to_line_distance (x, y) (A, B, C) = Inl ZeroDivisionError)"
  by (simp add: point_to_line_distance_def)

theorem point_to_line_distance_value_or_zero_division_witness:
  "point_to_line_distance (0, 1) (0, -1, 0) = Inr 1
   \<and> point_to_line_distance (3, 4) (0, 0, 7) = Inl ZeroDivisionError"
  using point_to_line_distance_value_or_zero_division
          [where A = 0 and B = "-1" and C = 0 and x = 0 and y = 1]
        point_to_line_distance_value_or_zero_division
          [where A = 0 and B = 0 and C = 7 and x = 3 and y = 4]
  by simp

subsection \<open>The method \<^verbatim>\<open>parallel\<close>\<close>

lemma parallel_eq:
  "lines_distance (A1, B1, C1) (A2, B2, C2) p1 p2 ''parallel'' =
     Inr (if \<bar>A1 * A2 + B1 * B2\<bar> < 0.95 then PInf else Fin \<bar>C2 - C1\<bar>)"
  by (simp add: lines_distance_def Let_def)

text \<open>
  Claim C5. With the method \<^verbatim>\<open>parallel\<close>, \<open>lines_distance\<close> returns \<open>+\<infinity>\<close> exactly when
  \<open>\<bar>A1 A2 + B1 B2\<bar> < 0.95\<close> and \<open>\<bar>C2 - C1\<bar>\<close> otherwise. Two segments whose directions
  are perpendicular give \<open>+\<infinity>\<close>, and the segments \<open>(0,0)-(1,0)\<close> and \<open>(0,1)-(1,1)\<close> give 1.
\<close>

theorem lines_distance_parallel:
  "lines_distance (A1, B1, C1) (A2, B2, C2) p1 p2 ''parallel'' =
      Inr (if \<bar>A1 * A2 + B1 * B2\<bar> < 0.95 then PInf else Fin \<bar>C2 - C1\<bar>)
   \<and> (lines_distance (A1, B1, C1) (A2, B2, C2) p1 p2 ''parallel'' = Inr PInf
        \<longleftrightarrow> \<bar>A1 * A2 + B1 * B2\<bar> < 0.95)
   \<and> ((x2 - x1) * (u2 - u1) + (y2 - y1) * (v2 - v1) = 0 \<longrightarrow>
        lines_distance (line_to_canonical (x1, y1, x2, y2)) (line_to_canonical (u1, v1, u2, v2))
          p1 p2 ''parallel'' = Inr PInf)
   \<and> lines_distance (line_to_canonical (0, 0, 1, 0)) (line_to_canonical (0, 1, 1, 1))
          p1 p2 ''parallel'' = Inr (Fin 1)"
proof -
  have perp: "lines_distance (line_to_canonical (x1, y1, x2, y2))
          (line_to_canonical (u1, v1, u2, v2)) p1 p2 ''parallel'' = Inr PInf"
    if h: "(x2 - x1) * (u2 - u1) + (y2 - y1) * (v2 - v1) = 0"
  proof -
    have e: "(y2 - y1) * (v2 - v1) + (x1 - x2) * (u1 - u2) = 0"
      using h by algebra
    obtain n1 c1 where
      l1: "line_to_canonical (x1, y1, x2, y2) = ((y2 - y1) / n1, (x1 - x2) / n1, c1)"
      using canon_scaled by blast
    obtain n2 c2 where
      l2: "line_to_canonical (u1, v1, u2, v2) = ((v2 - v1) / n2, (u1 - u2) / n2, c2)"
      using canon_scaled by blast
    have "(y2 - y1) / n1 * ((v2 - v1) / n2) + (x1 - x2) / n1 * ((u1 - u2) / n2)
        = ((y2 - y1) * (v2 - v1) + (x1 - x2) * (u1 - u2)) / (n1 * n2)"
      by (simp add: add_divide_distrib)
    then have "(y2 - y1) / n1 * ((v2 - v1) / n2) + (x1 - x2) / n1 * ((u1 - u2) / n2) = 0"
      using e by simp
    then show ?thesis unfolding l1 l2 parallel_eq by simp
  qed
  have unit_offset: "lines_distance (line_to_canonical (0, 0, 1, 0))
          (line_to_canonical (0, 1, 1, 1)) p1 p2 ''parallel'' = Inr (Fin 1)"
    by (simp add: canon_cases parallel_eq)
  show ?thesis using perp unit_offset by (simp add: parallel_eq)
qed

theorem lines_distance_parallel_witness:
  "lines_distance (line_to_canonical (0, 0, 1, 0)) (line_to_canonical (0, 0, 0, 1))
     None None ''parallel'' = Inr PInf"
  using lines_distance_parallel
          [where ?x1.0 = 0 and ?y1.0 = 0 and ?x2.0 = 1 and ?y2.0 = 0
             and ?u1.0 = 0 and ?v1.0 = 0 and ?u2.0 = 0 and ?v2.0 = 1
             and ?p1.0 = None and ?p2.0 = None]
  by simp

subsection \<open>Canonical form and angle\<close>

text \<open>
  Claim C8. \<open>line_to_canonical\<close> returns \<open>A = y2 - y1\<close>, \<open>B = x1 - x2\<close>,
  \<open>C = x2 y1 - x1 y2\<close>, each divided by \<open>sqrt (A\<^sup>2 + B\<^sup>2)\<close>, whenever that norm is
  positive; for a segment with distinct endpoints the norm is positive and the result
  satisfies \<open>A\<^sup>2 + B\<^sup>2 = 1\<close>; for a segment of length zero it returns \<open>(0, 0, 0)\<close>
  (the function has no error result).
\<close>

theorem line_to_canonical_normalised:
  "(sqrt ((y2 - y1)\<^sup>2 + (x1 - x2)\<^sup>2) > 0 \<longrightarrow>
      line_to_canonical (x1, y1, x2, y2) =
        ((y2 - y1) / sqrt ((y2 - y1)\<^sup>2 + (x1 - x2)\<^sup>2),
         (x1 - x2) / sqrt ((y2 - y1)\<^sup>2 + (x1 - x2)\<^sup>2),
         (x2 * y1 - x1 * y2) / sqrt ((y2 - y1)\<^sup>2 + (x1 - x2)\<^sup>2)))
   \<and> ((x1, y1) \<noteq> (x2, y2) \<longrightarrow>
        sqrt ((y2 - y1)\<^sup>2 + (x1 - x2)\<^sup>2) > 0 \<and>
        (case line_to_canonical (x1, y1, x2, y2) of (A, B, C) \<Rightarrow> A\<^sup>2 + B\<^sup>2 = 1))
   \<and> line_to_canonical (x1, y1, x1, y1) = (0, 0, 0)"
proof -
  let ?n = "sqrt ((y2 - y1)\<^sup>2 + (x1 - x2)\<^sup>2)"
  have "?n > 0 \<longleftrightarrow> 0 < (y2 - y1)\<^sup>2 + (x1 - x2)\<^sup>2"
    by (rule real_sqrt_gt_0_iff)
  also have "\<dots> \<longleftrightarrow> y2 - y1 \<noteq> 0 \<or> x1 - x2 \<noteq> 0"
    by (rule sum_power2_gt_zero_iff)
  also have "\<dots> \<longleftrightarrow> \<not> (x1 = x2 \<and> y1 = y2)"
    by auto
  finally have pos: "?n > 0 \<longleftrightarrow> \<not> (x1 = x2 \<and> y1 = y2)" .
  have unit: "((y2 - y1) / ?n)\<^sup>2 + ((x1 - x2) / ?n)\<^sup>2 = 1" if "?n > 0"
  proof -
    have sq: "?n\<^sup>2 = (y2 - y1)\<^sup>2 + (x1 - x2)\<^sup>2"
      by simp
    have "((y2 - y1) / ?n)\<^sup>2 + ((x1 - x2) / ?n)\<^sup>2 =
        ((y2 - y1)\<^sup>2 + (x1 - x2)\<^sup>2) / ?n\<^sup>2"
      by (simp only: power_divide add_divide_distrib)
    also have "\<dots> = 1"
    proof -
      have "0 < (y2 - y1)\<^sup>2 + (x1 - x2)\<^sup>2"
        using that by (simp only: real_sqrt_gt_0_iff)
      then have "(y2 - y1)\<^sup>2 + (x1 - x2)\<^sup>2 \<noteq> 0"
        by linarith
      then show ?thesis unfolding sq by (rule divide_self)
    qed
    finally show ?thesis .
  qed
  show ?thesis using pos unit by (auto simp: canon_cases)
qed

theorem line_to_canonical_normalised_witness:
  "line_to_canonical (0, 0, 3, 4) = (4 / 5, - 3 / 5, 0) \<and> (4 / 5 :: real)\<^sup>2 + (- 3 / 5)\<^sup>2 = 1"
proof -
  have s: "sqrt ((4 - 0)\<^sup>2 + (0 - 3)\<^sup>2) = (5::real)"
    by (rule real_sqrt_unique) (simp_all add: power2_eq_square)
  show ?thesis
    using line_to_canonical_normalised [of 4 0 0 3] unfolding s
    by (simp add: power2_eq_square)
qed

lemma arctan_le_self: "0 \<le> x \<Longrightarrow> arctan x \<le> x"
proof (cases "x = 0")
  case True then show ?thesis by simp
next
  case False
  assume "0 \<le> x"
  with False have pos: "0 < x" by simp
  have "\<exists>z. 0 < z \<and> z < x \<and> arctan x - arctan 0 = (x - 0) * inverse (1 + z\<^sup>2)"
    by (rule MVT2 [OF pos]) (rule DERIV_arctan)
  then obtain z where z: "arctan x = x * inverse (1 + z\<^sup>2)" by auto
  have "inverse (1 + z\<^sup>2) \<le> 1"
    by (rule inverse_le_1_iff [THEN iffD2]) simp
  then have "x * inverse (1 + z\<^sup>2) \<le> x * 1"
    using pos by (intro mult_left_mono) simp_all
  then show ?thesis unfolding z by simp
qed






lemma math_pi_pos: "0 < math_pi"
  by (simp add: math_pi_def)


lemma atan2_range: "- pi < atan2 y x \<and> atan2 y x \<le> pi"
proof -
  have "- (pi / 2) < arctan (y / x)" "arctan (y / x) < pi / 2"
    by (rule arctan_lbound, rule arctan_ubound)
  moreover have "x < 0 \<Longrightarrow> y \<ge> 0 \<Longrightarrow> arctan (y / x) \<le> 0"
    by (simp add: divide_nonneg_neg)
  moreover have "x < 0 \<Longrightarrow> y < 0 \<Longrightarrow> arctan (y / x) > 0"
    by (simp add: divide_neg_neg)
  ultimately show ?thesis
    using pi_gt_zero unfolding atan2_def by (auto simp: field_simps)
qed


lemma float_mod_tiny_negative:
  assumes "0 < t" "t < 1 / 2 ^ 52"
  shows "float_mod (- t) math_pi = math_pi"
proof -
  have t1: "t < 1" using assms(2) by simp
  have q: "- 1 < - t / math_pi" "- t / math_pi < 0"
    using assms(1) t1 by (simp_all add: math_pi_def field_simps)
  then have "\<lceil>- t / math_pi\<rceil> = 0"
    by (simp add: ceiling_eq_iff)
  then have fm: "fmod (- t) math_pi = - t"
    using q(2) by (simp add: fmod_def)
  define x where "x = math_pi - t"
  have x24: "2 \<le> x" "x < 4" using assms(1) t1 by (simp_all add: x_def math_pi_def)
  then have xpos: "0 < x" by simp
  have "\<lfloor>log 2 x\<rfloor> = 1"
    using x24 xpos floor_log_eq_powr_iff [of x 2 1] by simp
  then have u: "(2::real) powr (of_int (max \<lfloor>log 2 \<bar>x\<bar>\<rfloor> (- 1022)) - 52) = 1 / 2 ^ 51"
    using xpos by (simp add: powr_minus_divide [of 2 51])
  have xu: "x / (1 / 2 ^ 51) = 7074237752028440 - t * 2 ^ 51"
    by (simp add: x_def math_pi_def algebra_simps)
  have th: "0 < t * 2 ^ 51" "t * 2 ^ 51 < 1 / 2"
    using assms by simp_all
  have fl: "\<lfloor>7074237752028440 - t * 2 ^ 51\<rfloor> = 7074237752028439"
    using th by (simp add: floor_eq_iff)
  have "round_half_even (7074237752028440 - t * 2 ^ 51) = 7074237752028440"
    using th unfolding round_half_even_def fl Let_def by simp
  then have "float_round x = math_pi"
    using xpos unfolding float_round_def Let_def u xu by (simp add: math_pi_def)
  then show ?thesis
    using assms(1) math_pi_pos unfolding float_mod_def Let_def fm x_def by simp
qed

lemma atan2_right: "0 < x \<Longrightarrow> atan2 y x = arctan (y / x)"
  by (simp add: atan2_def)

text \<open>
  Claim C9. \<open>line_angle\<close> is documented to return a value in \<open>[0, \<pi>)\<close>, the reduction
  of \<open>atan2 (-A) B\<close> modulo \<open>\<pi>\<close>. For the segment from \<open>(1000, 100)\<close> to
  \<open>(0, 100 + 2\<^sup>-\<^sup>4\<^sup>6)\<close>, whose canonical line has \<open>B > 0\<close>, it returns \<open>math_pi\<close>
  itself, the excluded upper end: \<open>atan2 (-A) B\<close> is negative and smaller in size than
  half the spacing of the doubles at \<open>math_pi\<close>, so that adding \<open>math_pi\<close> to it gives
  \<open>math_pi\<close> again.
\<close>

theorem line_angle_returns_math_pi:
  "line_angle (line_to_canonical (1000, 100, 0, 100 + 1 / 2 ^ 46)) = math_pi
   \<and> 0 < fst (snd (line_to_canonical (1000, 100, 0, 100 + 1 / 2 ^ 46)))"
proof -
  define n :: real where "n = sqrt ((1 / 2 ^ 46)\<^sup>2 + 1000\<^sup>2)"
  have npos: "0 < n" unfolding n_def
    by (rule real_sqrt_gt_zero, rule add_nonneg_pos) simp_all
  define t :: real where "t = arctan (1 / (2 ^ 46 * 1000))"
  have c: "line_to_canonical (1000, 100, 0, 100 + 1 / 2 ^ 46)
      = (1 / 2 ^ 46 / n, 1000 / n, (0 * 100 - 1000 * (100 + 1 / 2 ^ 46)) / n)"
    using npos unfolding line_to_canonical_def n_def by (simp add: Let_def)
  have "atan2 (- (1 / 2 ^ 46 / n)) (1000 / n) = arctan (- (1 / 2 ^ 46 / n) / (1000 / n))"
    using npos by (intro atan2_right) simp
  also have "- (1 / 2 ^ 46 / n) / (1000 / n) = - (1 / (2 ^ 46 * 1000))"
    using npos by (simp add: field_simps)
  finally have a: "atan2 (- (1 / 2 ^ 46 / n)) (1000 / n) = - t"
    by (simp add: t_def arctan_minus)
  have tpos: "0 < t" by (simp add: t_def)
  have "t \<le> 1 / (2 ^ 46 * 1000)" unfolding t_def by (rule arctan_le_self) simp
  also have "\<dots> < 1 / 2 ^ 52" by simp
  finally have tlt: "t < 1 / 2 ^ 52" .
  have "1000 / n \<noteq> 0" using npos by simp
  then have "line_angle (1 / 2 ^ 46 / n, 1000 / n, (0 * 100 - 1000 * (100 + 1 / 2 ^ 46)) / n)
      = float_mod (- t) math_pi"
    unfolding line_angle_def a [symmetric] by simp
  then show ?thesis
    unfolding c using float_mod_tiny_negative [OF tpos tlt] npos by simp
qed

subsection \<open>Failures and the Hausdorff method\<close>

lemma p2l_cases:
  "point_to_line_distance p l =
     (if degenerate l then Inl ZeroDivisionError
      else Inr (case p of (x, y) \<Rightarrow> case l of (A, B, C) \<Rightarrow>
                  \<bar>A * x + B * y + C\<bar> / sqrt (A\<^sup>2 + B\<^sup>2)))"
  by (cases p, cases l) (simp add: point_to_line_distance_def degenerate_def)

lemma p2l_nonneg: "point_to_line_distance p l = Inr d \<Longrightarrow> 0 \<le> d"
  by (cases p, cases l) (auto simp: point_to_line_distance_def split: if_splits)

lemma p2l_error: "point_to_line_distance p l = Inl e \<Longrightarrow> e = ZeroDivisionError \<and> degenerate l"
  by (cases p, cases l) (auto simp: point_to_line_distance_def degenerate_def split: if_splits)

lemma p2l_value: "point_to_line_distance p l = Inr d \<Longrightarrow> \<not> degenerate l"
  by (cases p, cases l) (auto simp: point_to_line_distance_def degenerate_def split: if_splits)

lemma hausdorff_pass_two:
  "hausdorff_pass [p, p'] [q, q'] l m =
     bind_err (point_to_line_distance p l) (\<lambda>d.
     bind_err (point_to_line_distance p' l) (\<lambda>d'. Inr (max (max m d) d')))"
  by (cases "point_to_line_distance p l"; cases "point_to_line_distance p' l") simp_all

lemma hausdorff_eq:
  "lines_distance l1 l2 (Some (x1, y1, x2, y2)) (Some (u1, v1, u2, v2)) ''hausdorff'' =
     bind_err (point_to_line_distance (x1, y1) l2) (\<lambda>d1.
     bind_err (point_to_line_distance (x2, y2) l2) (\<lambda>d2.
     bind_err (point_to_line_distance (u1, v1) l1) (\<lambda>d3.
     bind_err (point_to_line_distance (u2, v2) l1) (\<lambda>d4.
     Inr (Fin (max (max (max (max 0 d1) d2) d3) d4))))))"
  by (cases l1, cases l2, cases "point_to_line_distance (x1, y1) l2";
      cases "point_to_line_distance (x2, y2) l2";
      cases "point_to_line_distance (u1, v1) l1";
      cases "point_to_line_distance (u2, v2) l1")
     (simp_all add: lines_distance_def hausdorff_pass_two del: hausdorff_pass.simps)

text \<open>
  Claim C6. With both point arguments present, the method \<^verbatim>\<open>hausdorff\<close> of
  \<open>lines_distance\<close> (two loops, each with an inner minimum over the points of the other
  segment, starting from 0) equals \<open>hausdorff_max4\<close>, the maximum of the four
  point-to-line distances; the two also fail on the same inputs, with the same error.
\<close>

theorem lines_distance_hausdorff_is_max4:
  "lines_distance l1 l2 (Some s1) (Some s2) ''hausdorff'' = hausdorff_max4 l1 l2 s1 s2"
proof -
  obtain x1 y1 x2 y2 u1 v1 u2 v2 where s: "s1 = (x1, y1, x2, y2)" "s2 = (u1, v1, u2, v2)"
    by (cases s1, cases s2) auto
  have m: "max (max (max (max 0 d1) d2) d3) d4 = max (max d1 d2) (max d3 d4)"
    if "0 \<le> d1" for d1 d2 d3 d4 :: real
    using that by (simp add: max_def)
  show ?thesis
    unfolding s hausdorff_eq hausdorff_max4_def
    by (cases "point_to_line_distance (x1, y1) l2";
        cases "point_to_line_distance (x2, y2) l2";
        cases "point_to_line_distance (u1, v1) l1";
        cases "point_to_line_distance (u2, v2) l1")
       (simp_all add: m p2l_nonneg)
qed

text \<open>
  Claim C4 at a concrete input, method \<^verbatim>\<open>parallel\<close>: the segment \<open>(0,1)-(1,1)\<close> is at
  distance 0 from itself and at distance 2 from itself with the endpoints exchanged.
\<close>

theorem lines_distance_parallel_reversed:
  "lines_distance (line_to_canonical (0, 1, 1, 1)) (line_to_canonical (0, 1, 1, 1))
     None None ''parallel'' = Inr (Fin 0)
   \<and> lines_distance (line_to_canonical (0, 1, 1, 1)) (line_to_canonical (1, 1, 0, 1))
     None None ''parallel'' = Inr (Fin 2)"
  by (simp add: canon_cases parallel_eq)

text \<open>
  Claim C7, as stated, says two things that fail. It says that the five methods with their
  point arguments present always return a value: with the canonical line of a segment of
  length zero the method \<^verbatim>\<open>combined\<close> raises \<open>ZeroDivisionError\<close> instead. And it says
  that the error for an absent point argument names the missing parameter: the error is
  one and the same value when only the first point argument is absent and when only the
  second is, and its message is the text that names the method.
\<close>

theorem lines_distance_failures_counterexample:
  "lines_distance (line_to_canonical (2, 3, 2, 3)) (line_to_canonical (0, 0, 1, 0))
     (Some (2, 3, 2, 3)) (Some (0, 0, 1, 0)) ''combined'' = Inl ZeroDivisionError
   \<and> lines_distance (line_to_canonical (0, 0, 1, 0)) (line_to_canonical (0, 1, 1, 1))
        None (Some (0, 1, 1, 1)) ''center''
     = lines_distance (line_to_canonical (0, 0, 1, 0)) (line_to_canonical (0, 1, 1, 1))
        (Some (0, 0, 1, 0)) None ''center''
   \<and> lines_distance (line_to_canonical (0, 0, 1, 0)) (line_to_canonical (0, 1, 1, 1))
        None (Some (0, 1, 1, 1)) ''center''
     = Inl (ValueError (Message
         ([1044, 1083, 1103, 32, 1084, 1077, 1090, 1086, 1076, 1072, 32, 39]
          @ map of_char ''center''
          @ [39, 32, 1085, 1091, 1078, 1085, 1099, 32, 1080, 1089, 1093, 1086, 1076, 1085,
             1099, 1077, 32, 1090, 1086, 1095, 1082, 1080, 32, 1083, 1080, 1085, 1080, 1081])))"
  by (simp add: canon_cases lines_distance_def Let_def p2l_cases degenerate_def line_center_def
        points_needed_message_def)

lemma combined_eq:
  "lines_distance l1 l2 (Some s1) (Some s2) ''combined'' =
     (if degenerate l1 \<or> degenerate l2 then Inl ZeroDivisionError
      else Inr (Fin (angle_diff l1 l2 * 50 +
             sqrt ((fst (line_center s1) - fst (line_center s2))\<^sup>2 +
                   (snd (line_center s1) - snd (line_center s2))\<^sup>2) * 0.5 +
             (projr (point_to_line_distance (line_center s1) l2) +
              projr (point_to_line_distance (line_center s2) l1)) / 2 * 1.0)))"
  by (cases l1, cases l2) (simp add: lines_distance_def Let_def p2l_cases)

lemma hausdorff_cases:
  "lines_distance l1 l2 (Some s1) (Some s2) ''hausdorff'' =
     (if degenerate l1 \<or> degenerate l2 then Inl ZeroDivisionError
      else Inr (projr (lines_distance l1 l2 (Some s1) (Some s2) ''hausdorff'')))"
  by (cases s1, cases s2) (simp add: hausdorff_eq p2l_cases)

text \<open>
  Claim C7, as amended. \<open>lines_distance\<close> fails in exactly three cases: with a method
  outside the five names, by the \<open>ValueError\<close> whose message ends with the offending
  string; with one of \<^verbatim>\<open>center\<close>, \<^verbatim>\<open>combined\<close>, \<^verbatim>\<open>hausdorff\<close> and a point
  argument absent, by the \<open>ValueError\<close> whose message names the method, the same
  whichever point argument is absent and whatever the lines are (the check comes before
  any computation); and with \<^verbatim>\<open>combined\<close> or \<^verbatim>\<open>hausdorff\<close>, both point arguments
  present and a degenerate canonical line, by \<open>ZeroDivisionError\<close>. In every other case
  it returns a value; \<^verbatim>\<open>parallel\<close> and \<^verbatim>\<open>angle\<close> never fail. The four cases of the
  statement cover all inputs. Numbers are exact reals here, so the \<^verbatim>\<open>OverflowError\<close>
  of a float squaring that leaves the float range is not among the cases.
\<close>

theorem lines_distance_failures:
  "(m \<notin> {''parallel'', ''angle'', ''center'', ''combined'', ''hausdorff''} \<longrightarrow>
      lines_distance l1 l2 p1 p2 m = Inl (ValueError (Message (unknown_method_message m))))
   \<and> (m \<in> {''center'', ''combined'', ''hausdorff''} \<and> (p1 = None \<or> p2 = None) \<longrightarrow>
      lines_distance l1 l2 p1 p2 m = Inl (ValueError (Message (points_needed_message m))))
   \<and> (m \<in> {''combined'', ''hausdorff''} \<and> p1 \<noteq> None \<and> p2 \<noteq> None
        \<and> (degenerate l1 \<or> degenerate l2) \<longrightarrow>
      lines_distance l1 l2 p1 p2 m = Inl ZeroDivisionError)
   \<and> (m \<in> {''parallel'', ''angle''} \<or> (m = ''center'' \<and> p1 \<noteq> None \<and> p2 \<noteq> None)
        \<or> (m \<in> {''combined'', ''hausdorff''} \<and> p1 \<noteq> None \<and> p2 \<noteq> None
            \<and> \<not> degenerate l1 \<and> \<not> degenerate l2) \<longrightarrow>
      (\<exists>d. lines_distance l1 l2 p1 p2 m = Inr d))"
proof -
  have unknown: "lines_distance l1 l2 p1 p2 m = Inl (ValueError (Message (unknown_method_message m)))"
    if "m \<notin> {''parallel'', ''angle'', ''center'', ''combined'', ''hausdorff''}"
    using that by (cases l1, cases l2) (simp add: lines_distance_def)
  have missing: "lines_distance l1 l2 p1 p2 m = Inl (ValueError (Message (points_needed_message m)))"
    if "m \<in> {''center'', ''combined'', ''hausdorff''}" "p1 = None \<or> p2 = None"
    using that by (cases l1, cases l2) (auto simp: lines_distance_def split: option.splits)
  have par: "\<exists>d. lines_distance l1 l2 p1 p2 ''parallel'' = Inr d"
    by (cases l1, cases l2) (simp add: lines_distance_def Let_def)
  have ang: "\<exists>d. lines_distance l1 l2 p1 p2 ''angle'' = Inr d"
    by (cases l1, cases l2) (simp add: lines_distance_def)
  have cen: "\<exists>d. lines_distance l1 l2 (Some s1) (Some s2) ''center'' = Inr d" for s1 s2
    by (cases l1, cases l2) (simp add: lines_distance_def Let_def)
  have comb_bad: "lines_distance l1 l2 (Some s1) (Some s2) ''combined'' = Inl ZeroDivisionError"
    if "degenerate l1 \<or> degenerate l2" for s1 s2
    using that by (simp add: combined_eq)
  have comb_ok: "\<exists>d. lines_distance l1 l2 (Some s1) (Some s2) ''combined'' = Inr d"
    if "\<not> degenerate l1" "\<not> degenerate l2" for s1 s2
    using that by (simp add: combined_eq)
  have haus_bad: "lines_distance l1 l2 (Some s1) (Some s2) ''hausdorff'' = Inl ZeroDivisionError"
    if "degenerate l1 \<or> degenerate l2" for s1 s2
    using that by (subst hausdorff_cases) simp
  have haus_ok: "\<exists>d. lines_distance l1 l2 (Some s1) (Some s2) ''hausdorff'' = Inr d"
    if "\<not> degenerate l1" "\<not> degenerate l2" for s1 s2
    using that by (subst hausdorff_cases) simp
  have c1: "m \<notin> {''parallel'', ''angle'', ''center'', ''combined'', ''hausdorff''} \<longrightarrow>
      lines_distance l1 l2 p1 p2 m = Inl (ValueError (Message (unknown_method_message m)))"
    using unknown by blast
  have c2: "m \<in> {''center'', ''combined'', ''hausdorff''} \<and> (p1 = None \<or> p2 = None) \<longrightarrow>
      lines_distance l1 l2 p1 p2 m = Inl (ValueError (Message (points_needed_message m)))"
    using missing by blast
  have c3: "m \<in> {''combined'', ''hausdorff''} \<and> p1 \<noteq> None \<and> p2 \<noteq> None
        \<and> (degenerate l1 \<or> degenerate l2) \<longrightarrow>
      lines_distance l1 l2 p1 p2 m = Inl ZeroDivisionError"
    using comb_bad haus_bad by (cases p1; cases p2) auto
  have c4: "m \<in> {''parallel'', ''angle''} \<or> (m = ''center'' \<and> p1 \<noteq> None \<and> p2 \<noteq> None)
        \<or> (m \<in> {''combined'', ''hausdorff''} \<and> p1 \<noteq> None \<and> p2 \<noteq> None
            \<and> \<not> degenerate l1 \<and> \<not> degenerate l2) \<longrightarrow>
      (\<exists>d. lines_distance l1 l2 p1 p2 m = Inr d)"
    using par ang cen comb_ok haus_ok by (cases p1; cases p2) auto
  show ?thesis
    using c1 c2 c3 c4 by blast
qed

theorem lines_distance_failures_witness:
  "lines_distance (0, 1, 0) (1, 0, 0) None None ''bogus'' = Inl (ValueError (Message (unknown_method_message ''bogus'')))
   \<and> lines_distance (0, 0, 0) (1, 0, 0) None (Some (0, 0, 0, 1)) ''combined'' =
       Inl (ValueError (Message (points_needed_message ''combined'')))
   \<and> lines_distance (0, 0, 0) (1, 0, 0) (Some (2, 3, 2, 3)) (Some (0, 0, 0, 1)) ''hausdorff'' =
       Inl ZeroDivisionError
   \<and> (\<exists>d. lines_distance (0, 1, 0) (1, 0, 0) (Some (0, 0, 1, 0)) (Some (0, 0, 0, 1)) ''combined'' = Inr d)"
  using lines_distance_failures [of "''bogus''" "(0, 1, 0)" "(1, 0, 0)" None None]
        lines_distance_failures [of "''combined''" "(0, 0, 0)" "(1, 0, 0)" None "Some (0, 0, 0, 1)"]
        lines_distance_failures [of "''hausdorff''" "(0, 0, 0)" "(1, 0, 0)" "Some (2, 3, 2, 3)" "Some (0, 0, 0, 1)"]
        lines_distance_failures [of "''combined''" "(0, 1, 0)" "(1, 0, 0)" "Some (0, 0, 1, 0)" "Some (0, 0, 0, 1)"]
  by (simp add: degenerate_def)

subsection \<open>The distance matrix\<close>























subsection \<open>Grouping\<close>

lemma grow_group_eq:
  "distinct js \<Longrightarrow>
   grow_group M t i js (g, v) =
     (g @ filter (\<lambda>j. j \<notin> v \<and> float_le (M ! i ! j) t) js,
      v \<union> set (filter (\<lambda>j. j \<notin> v \<and> float_le (M ! i ! j) t) js))"
proof (induction js arbitrary: g v)
  case Nil
  then show ?case by simp
next
  case (Cons j js)
  have nj: "j \<notin> set js" and djs: "distinct js"
    using Cons.prems by simp_all
  show ?case
  proof (cases "j \<notin> v \<and> float_le (M ! i ! j) t")
    case True
    have f: "filter (\<lambda>k. k \<notin> insert j v \<and> float_le (M ! i ! k) t) js =
             filter (\<lambda>k. k \<notin> v \<and> float_le (M ! i ! k) t) js"
      using nj by (intro filter_cong) auto
    have "grow_group M t i (j # js) (g, v) = grow_group M t i js (g @ [j], insert j v)"
      using True by simp
    also have "\<dots> = ((g @ [j]) @ filter (\<lambda>k. k \<notin> insert j v \<and> float_le (M ! i ! k) t) js,
        insert j v \<union> set (filter (\<lambda>k. k \<notin> insert j v \<and> float_le (M ! i ! k) t) js))"
      by (rule Cons.IH [OF djs])
    also have "\<dots> = (g @ filter (\<lambda>k. k \<notin> v \<and> float_le (M ! i ! k) t) (j # js),
        v \<union> set (filter (\<lambda>k. k \<notin> v \<and> float_le (M ! i ! k) t) (j # js)))"
      unfolding f using True by simp
    finally show ?thesis .
  next
    case False
    then show ?thesis
      by (auto simp: Cons.IH [OF djs])
  qed
qed

lemma collect_groups_step:
  assumes "i \<notin> v"
  shows "collect_groups M t n (i # is) (v, gs) =
           collect_groups M t n is (v \<union> set (group_of M t n v i), gs @ [group_of M t n v i])"
proof -
  have f: "filter (\<lambda>j. j \<notin> insert i v \<and> float_le (M ! i ! j) t) [0 ..< n] =
           filter (\<lambda>j. j \<notin> v \<and> j \<noteq> i \<and> float_le (M ! i ! j) t) [0 ..< n]"
    by (intro filter_cong) auto
  have "grow_group M t i [0 ..< n] ([i], insert i v) =
          ([i] @ filter (\<lambda>j. j \<notin> insert i v \<and> float_le (M ! i ! j) t) [0 ..< n],
           insert i v \<union> set (filter (\<lambda>j. j \<notin> insert i v \<and> float_le (M ! i ! j) t) [0 ..< n]))"
    by (rule grow_group_eq) simp
  also have "\<dots> = (group_of M t n v i, v \<union> set (group_of M t n v i))"
    unfolding f group_of_def by simp
  finally show ?thesis using assms by simp
qed

lemma group_of_props:
  assumes "i < n" "i \<notin> v"
  shows "distinct (group_of M t n v i)" "set (group_of M t n v i) \<subseteq> {0 ..< n}"
    "set (group_of M t n v i) \<inter> v = {}" "i \<in> set (group_of M t n v i)"
    "hd (group_of M t n v i) = i" "group_of M t n v i \<noteq> []"
  using assms by (auto simp: group_of_def)

lemma groups_ok_snoc:
  assumes ok: "groups_ok M t n gs" and i: "i < n" "i \<notin> set (concat gs)"
    and below: "\<forall>x<i. x \<in> set (concat gs)"
  shows "groups_ok M t n (gs @ [group_of M t n (set (concat gs)) i])"
proof -
  let ?g = "group_of M t n (set (concat gs)) i"
  have hd: "hd ?g = i" and ne: "?g \<noteq> []"
    by (simp_all add: group_of_def)
  show ?thesis
    unfolding groups_ok_def
  proof (intro allI impI)
    fix k
    assume "k < length (gs @ [?g])"
    then consider "k < length gs" | "k = length gs" by fastforce
    then show "(gs @ [?g]) ! k \<noteq> []
        \<and> hd ((gs @ [?g]) ! k) < n
        \<and> hd ((gs @ [?g]) ! k) \<notin> set (concat (take k (gs @ [?g])))
        \<and> (\<forall>x<hd ((gs @ [?g]) ! k). x \<in> set (concat (take k (gs @ [?g]))))
        \<and> (gs @ [?g]) ! k =
            group_of M t n (set (concat (take k (gs @ [?g])))) (hd ((gs @ [?g]) ! k))"
    proof cases
      case 1
      then have "(gs @ [?g]) ! k = gs ! k" "take k (gs @ [?g]) = take k gs"
        by (simp_all add: nth_append)
      then show ?thesis using ok 1 unfolding groups_ok_def by simp
    next
      case 2
      then have "(gs @ [?g]) ! k = ?g" "take k (gs @ [?g]) = gs"
        by simp_all
      then show ?thesis using i below hd ne by simp
    qed
  qed
qed

lemma collect_groups_inv:
  assumes "is = [a ..< n]" "\<forall>x<a. x \<in> v" "v = set (concat gs)" "v \<subseteq> {0 ..< n}"
    "distinct (concat gs)" "groups_ok M t n gs"
    "collect_groups M t n is (v, gs) = (v', gs')"
  shows "v' = set (concat gs') \<and> v' = {0 ..< n} \<and> distinct (concat gs') \<and> groups_ok M t n gs'"
  using assms
proof (induction "is" arbitrary: a v gs)
  case Nil
  have "[a ..< n] = []" using Nil.prems(1) by (rule sym)
  then have "n \<le> a" by auto
  then have "v = {0 ..< n}" using Nil.prems(2,4) by auto
  then show ?case using Nil.prems by simp
next
  case (Cons i "is")
  have "[a ..< n] = i # is" using Cons.prems(1) by (rule sym)
  then have ia: "i = a" and an: "a < n" and rest: "is = [Suc a ..< n]"
    by (auto simp: upt_eq_Cons_conv)
  show ?case
  proof (cases "i \<in> v")
    case True
    then have run: "collect_groups M t n is (v, gs) = (v', gs')"
      using Cons.prems(7) by simp
    have b: "\<forall>x<Suc a. x \<in> v"
      using Cons.prems(2) True ia by (auto simp: less_Suc_eq)
    show ?thesis
      by (rule Cons.IH [OF rest b Cons.prems(3,4,5,6) run])
  next
    case False
    let ?g = "group_of M t n v i"
    have run: "collect_groups M t n is (v \<union> set ?g, gs @ [?g]) = (v', gs')"
      using Cons.prems(7) collect_groups_step [OF False] by simp
    have i: "i < n" using ia an by simp
    note gp = group_of_props [OF i False, of M t]
    have 1: "\<forall>x<Suc a. x \<in> v \<union> set ?g"
      using Cons.prems(2) gp(4) ia by (auto simp: less_Suc_eq)
    have 2: "v \<union> set ?g = set (concat (gs @ [?g]))"
      using Cons.prems(3) by simp
    have 3: "v \<union> set ?g \<subseteq> {0 ..< n}"
      using Cons.prems(4) gp(2) by simp
    have 4: "distinct (concat (gs @ [?g]))"
      using Cons.prems(3,5) gp(1,3) by auto
    have 5: "groups_ok M t n (gs @ [?g])"
      using groups_ok_snoc [OF Cons.prems(6), of i] i False Cons.prems(2,3) ia by simp
    show ?thesis
      by (rule Cons.IH [OF rest 1 2 3 4 5 run])
  qed
qed

lemma distinct_concat_disjoint:
  assumes "distinct (concat xss)" "k < l" "l < length xss"
  shows "set (xss ! k) \<inter> set (xss ! l) = {}"
proof -
  have "concat xss = concat (take l xss @ xss ! l # drop (Suc l) xss)"
    by (rule arg_cong [where f = concat], rule id_take_nth_drop [OF assms(3)])
  then have e: "concat xss = concat (take l xss) @ xss ! l @ concat (drop (Suc l) xss)"
    by simp
  have "distinct (concat (take l xss) @ xss ! l @ concat (drop (Suc l) xss))"
    using assms(1) unfolding e .
  then have d: "set (concat (take l xss)) \<inter> set (xss ! l) = {}"
    by auto
  have "take l xss ! k = xss ! k" "k < length (take l xss)"
    using assms(2,3) by simp_all
  then have "xss ! k \<in> set (take l xss)"
    using nth_mem by metis
  then have "set (xss ! k) \<subseteq> set (concat (take l xss))"
    by auto
  then show ?thesis using d by auto
qed

lemma find_similar_lines_eq:
  assumes "calculate_line_distances lines method = Inr M"
  shows "find_similar_lines lines threshold method =
           Inr (snd (collect_groups M threshold (length lines) [0 ..< length lines] ({}, [])))"
  unfolding find_similar_lines_def assms by (simp add: Let_def)

lemma collect_groups_from_empty:
  assumes "collect_groups M t n [0 ..< n] ({}, []) = (v', gs')"
  shows "set (concat gs') = {0 ..< n} \<and> distinct (concat gs') \<and> groups_ok M t n gs'"
proof -
  have "v' = set (concat gs') \<and> v' = {0 ..< n} \<and> distinct (concat gs') \<and> groups_ok M t n gs'"
    by (rule collect_groups_inv [OF refl _ _ _ _ _ assms]) (simp_all add: groups_ok_def)
  then show ?thesis by auto
qed


text \<open>
  Claim C1. Whenever the distance matrix \<open>M\<close> is computed, \<open>find_similar_lines\<close> returns
  groups that are non-empty, pairwise disjoint, without repetition, and whose union is
  \<open>{0, \<dots>, N-1}\<close>. The founder of each group (its first element) is the least index in
  no earlier group, and the group is the founder followed, in ascending order, by exactly
  the indices \<open>j\<close> in no earlier group, other than the founder, with
  \<open>M[founder][j] \<le> threshold\<close>: membership is decided against the founder only.
\<close>

theorem find_similar_lines_partition:
  assumes "calculate_line_distances lines method = Inr M"
  shows "\<exists>groups. find_similar_lines lines threshold method = Inr groups
      \<and> (\<forall>g\<in>set groups. g \<noteq> [])
      \<and> (\<forall>k<length groups. \<forall>l<length groups. k \<noteq> l \<longrightarrow>
            set (groups ! k) \<inter> set (groups ! l) = {})
      \<and> distinct (concat groups)
      \<and> set (concat groups) = {0 ..< length lines}
      \<and> (\<forall>k<length groups.
            hd (groups ! k) \<notin> set (concat (take k groups))
            \<and> (\<forall>x<hd (groups ! k). x \<in> set (concat (take k groups)))
            \<and> groups ! k =
                hd (groups ! k) #
                filter (\<lambda>j. j \<notin> set (concat (take k groups)) \<and> j \<noteq> hd (groups ! k)
                          \<and> float_le (M ! hd (groups ! k) ! j) threshold)
                  [0 ..< length lines])"
proof -
  let ?n = "length lines"
  obtain v' gs' where r: "collect_groups M threshold ?n [0 ..< ?n] ({}, []) = (v', gs')"
    by (cases "collect_groups M threshold ?n [0 ..< ?n] ({}, [])") auto
  have f: "find_similar_lines lines threshold method = Inr gs'"
    using find_similar_lines_eq [OF assms, of threshold] r by simp
  note inv = collect_groups_from_empty [OF r]
  have cover: "set (concat gs') = {0 ..< ?n}" and dist: "distinct (concat gs')"
    and ok: "groups_ok M threshold ?n gs'"
    using inv by simp_all
  have ne: "\<forall>g\<in>set gs'. g \<noteq> []"
  proof (rule ballI)
    fix g
    assume "g \<in> set gs'"
    then obtain k where "k < length gs'" "gs' ! k = g"
      by (auto simp: in_set_conv_nth)
    then show "g \<noteq> []"
      using ok [unfolded groups_ok_def, rule_format, of k, THEN conjunct1] by simp
  qed
  have disj: "\<forall>k<length gs'. \<forall>l<length gs'. k \<noteq> l \<longrightarrow> set (gs' ! k) \<inter> set (gs' ! l) = {}"
  proof (intro allI impI)
    fix k l
    assume kl: "k < length gs'" "l < length gs'" "k \<noteq> l"
    show "set (gs' ! k) \<inter> set (gs' ! l) = {}"
    proof (cases "k < l")
      case True
      show ?thesis by (rule distinct_concat_disjoint [OF dist True kl(2)])
    next
      case False
      then have "l < k" using kl(3) by simp
      then have "set (gs' ! l) \<inter> set (gs' ! k) = {}"
        by (rule distinct_concat_disjoint [OF dist _ kl(1)])
      then show ?thesis by (simp only: Int_commute)
    qed
  qed
  have shape: "\<forall>k<length gs'. hd (gs' ! k) \<notin> set (concat (take k gs'))
            \<and> (\<forall>x<hd (gs' ! k). x \<in> set (concat (take k gs')))
            \<and> gs' ! k =
                hd (gs' ! k) #
                filter (\<lambda>j. j \<notin> set (concat (take k gs')) \<and> j \<noteq> hd (gs' ! k)
                          \<and> float_le (M ! hd (gs' ! k) ! j) threshold)
                  [0 ..< ?n]"
  proof (intro allI impI)
    fix k
    assume k: "k < length gs'"
    show "hd (gs' ! k) \<notin> set (concat (take k gs'))
            \<and> (\<forall>x<hd (gs' ! k). x \<in> set (concat (take k gs')))
            \<and> gs' ! k =
                hd (gs' ! k) #
                filter (\<lambda>j. j \<notin> set (concat (take k gs')) \<and> j \<noteq> hd (gs' ! k)
                          \<and> float_le (M ! hd (gs' ! k) ! j) threshold)
                  [0 ..< ?n]"
      by (rule ok [unfolded groups_ok_def group_of_def, rule_format, OF k,
            THEN conjunct2, THEN conjunct2])
  qed
  show ?thesis
    by (rule exI [of _ gs'], intro conjI f ne disj dist cover shape)
qed

theorem find_similar_lines_partition_witness:
  "calculate_line_distances [(0, 0, 1, 0), (0, 1, 1, 1), (0, 0, 0, 1)] ''parallel'' =
     Inr [[Fin 0, Fin 1, PInf], [Fin 1, Fin 0, PInf], [PInf, PInf, Fin 0]]
   \<and> find_similar_lines [(0, 0, 1, 0), (0, 1, 1, 1), (0, 0, 0, 1)] (Fin 1) ''parallel'' =
       Inr [[0, 1], [2]]
   \<and> (\<exists>groups. find_similar_lines [(0, 0, 1, 0), (0, 1, 1, 1), (0, 0, 0, 1)] (Fin 1) ''parallel'' =
         Inr groups \<and> distinct (concat groups) \<and> set (concat groups) =
           {0 ..< length ([(0, 0, 1, 0), (0, 1, 1, 1), (0, 0, 0, 1)] :: segment list)})"
proof -
  have c: "calculate_line_distances [(0, 0, 1, 0), (0, 1, 1, 1), (0, 0, 0, 1)] ''parallel'' =
     Inr [[Fin 0, Fin 1, PInf], [Fin 1, Fin 0, PInf], [PInf, PInf, Fin 0]]"
    by (simp add: calculate_line_distances_def Let_def canon_cases parallel_eq set_entry_def
        needs_points_def)
  have g: "find_similar_lines [(0, 0, 1, 0), (0, 1, 1, 1), (0, 0, 0, 1)] (Fin 1) ''parallel'' =
       Inr [[0, 1], [2]]"
    unfolding find_similar_lines_def c by (simp add: Let_def numeral_2_eq_2)
  have "\<exists>groups. find_similar_lines [(0, 0, 1, 0), (0, 1, 1, 1), (0, 0, 0, 1)] (Fin 1) ''parallel'' =
         Inr groups \<and> distinct (concat groups) \<and> set (concat groups) =
           {0 ..< length ([(0, 0, 1, 0), (0, 1, 1, 1), (0, 0, 0, 1)] :: segment list)}"
    using find_similar_lines_partition [OF c, of "Fin 1"]
  proof (elim exE conjE)
    fix groups
    assume a: "find_similar_lines [(0, 0, 1, 0), (0, 1, 1, 1), (0, 0, 0, 1)] (Fin 1) ''parallel'' =
        Inr groups"
      "distinct (concat groups)"
      "set (concat groups) = {0 ..< length ([(0, 0, 1, 0), (0, 1, 1, 1), (0, 0, 0, 1)] :: segment list)}"
    show ?thesis
      by (intro exI [of _ groups] conjI a)
  qed
  then show ?thesis
    by (intro conjI c g)
qed

subsection \<open>Reduction\<close>

lemma collect_all_Inr:
  "\<forall>x\<in>set xs. \<exists>y. f x = Inr y \<Longrightarrow> collect (map f xs) = Inr (map (\<lambda>x. projr (f x)) xs)"
proof (induction xs)
  case Nil
  then show ?case by simp
next
  case (Cons x xs)
  then obtain y where "f x = Inr y" by auto
  then show ?case using Cons by simp
qed

lemma collect_get:
  "\<forall>i\<in>set g. i < length xs \<Longrightarrow> collect (map (get xs) g) = Inr (map ((!) xs) g)"
  by (induction g) (simp_all add: get_def)

lemma fold_max_first:
  fixes f :: "'a \<Rightarrow> real"
  assumes "m < length ys" "cur = ys ! m" "\<forall>y\<in>set ys. f y \<le> f cur"
    "\<forall>m'<m. f (ys ! m') < f cur"
  shows "\<exists>m2<length (ys @ xs).
           fold (\<lambda>y c. if f y > f c then y else c) xs cur = (ys @ xs) ! m2
           \<and> (\<forall>y\<in>set (ys @ xs). f y \<le> f ((ys @ xs) ! m2))
           \<and> (\<forall>m'<m2. f ((ys @ xs) ! m') < f ((ys @ xs) ! m2))"
  using assms
proof (induction xs arbitrary: ys cur m)
  case Nil
  then show ?case by auto
next
  case (Cons x xs)
  show ?case
  proof (cases "f x > f cur")
    case True
    have 1: "length ys < length (ys @ [x])" by simp
    have 2: "x = (ys @ [x]) ! length ys" by simp
    have 3: "\<forall>y\<in>set (ys @ [x]). f y \<le> f x"
      using Cons.prems(3) True by fastforce
    have 4: "\<forall>m'<length ys. f ((ys @ [x]) ! m') < f x"
    proof (intro allI impI)
      fix m'
      assume a: "m' < length ys"
      then have "ys ! m' \<in> set ys" by simp
      then have "f (ys ! m') \<le> f cur" using Cons.prems(3) by blast
      then show "f ((ys @ [x]) ! m') < f x"
        using True a by (simp add: nth_append)
    qed
    have "fold (\<lambda>y c. if f y > f c then y else c) (x # xs) cur =
          fold (\<lambda>y c. if f y > f c then y else c) xs x"
      using True by simp
    then show ?thesis
      using Cons.IH [OF 1 2 3 4] by simp
  next
    case False
    have 1: "m < length (ys @ [x])" using Cons.prems(1) by simp
    have 2: "cur = (ys @ [x]) ! m" using Cons.prems(1,2) by (simp add: nth_append)
    have 3: "\<forall>y\<in>set (ys @ [x]). f y \<le> f cur"
      using Cons.prems(3) False by auto
    have 4: "\<forall>m'<m. f ((ys @ [x]) ! m') < f cur"
      using Cons.prems(1,4) by (simp add: nth_append)
    have "fold (\<lambda>y c. if f y > f c then y else c) (x # xs) cur =
          fold (\<lambda>y c. if f y > f c then y else c) xs cur"
      using False by simp
    then show ?thesis
      using Cons.IH [OF 1 2 3 4] by simp
  qed
qed

lemma py_max_key_first:
  assumes "xs \<noteq> []"
  shows "\<exists>m<length xs. py_max_key f xs = Inr (xs ! m)
           \<and> (\<forall>y\<in>set xs. f y \<le> f (xs ! m))
           \<and> (\<forall>m'<m. f (xs ! m') < f (xs ! m))"
proof -
  obtain x xs' where xs: "xs = x # xs'"
    using assms by (cases xs) auto
  have "\<exists>m2<length ([x] @ xs').
           fold (\<lambda>y c. if f y > f c then y else c) xs' x = ([x] @ xs') ! m2
           \<and> (\<forall>y\<in>set ([x] @ xs'). f y \<le> f (([x] @ xs') ! m2))
           \<and> (\<forall>m'<m2. f (([x] @ xs') ! m') < f (([x] @ xs') ! m2))"
    by (rule fold_max_first [of 0]) simp_all
  then show ?thesis
    unfolding xs by simp
qed

lemma find_similar_lines_groups:
  assumes "find_similar_lines lines threshold method = Inr groups"
  shows "\<forall>g\<in>set groups. g \<noteq> [] \<and> (\<forall>i\<in>set g. i < length lines)"
proof -
  obtain M where M: "calculate_line_distances lines method = Inr M"
    using assms unfolding find_similar_lines_def
    by (cases "calculate_line_distances lines method") auto
  let ?n = "length lines"
  obtain v' gs' where r: "collect_groups M threshold ?n [0 ..< ?n] ({}, []) = (v', gs')"
    by (cases "collect_groups M threshold ?n [0 ..< ?n] ({}, [])") auto
  have g: "groups = gs'"
    using find_similar_lines_eq [OF M, of threshold] r assms by simp
  note inv = collect_groups_from_empty [OF r]
  have cover: "set (concat gs') = {0 ..< ?n}" and ok: "groups_ok M threshold ?n gs'"
    using inv by simp_all
  show ?thesis
    unfolding g
  proof (intro ballI conjI)
    fix h
    assume h: "h \<in> set gs'"
    then obtain k where "k < length gs'" "gs' ! k = h"
      by (auto simp: in_set_conv_nth)
    then show "h \<noteq> []"
      using ok [unfolded groups_ok_def, rule_format, of k, THEN conjunct1] by simp
    fix i
    assume "i \<in> set h"
    then have "i \<in> set (concat gs')" using h by auto
    then show "i < ?n" unfolding cover by simp
  qed
qed

lemma representative_ok:
  assumes "g \<noteq> []" "\<forall>i\<in>set g. i < length lines"
  shows "\<exists>r. representative lines keep_longest g = Inr r \<and> r \<in> set lines
    \<and> (if keep_longest
        then (\<exists>m<length g. r = lines ! (g ! m)
               \<and> (\<forall>m'<length g. line_length (lines ! (g ! m')) \<le> line_length r)
               \<and> (\<forall>m'<m. line_length (lines ! (g ! m')) < line_length r))
        else r = lines ! hd g)"
proof (cases keep_longest)
  case True
  let ?xs = "map ((!) lines) g"
  have rep: "representative lines keep_longest g = py_max_key line_length ?xs"
    using True assms(2) by (simp add: representative_def collect_get)
  have "?xs \<noteq> []" using assms(1) by simp
  then obtain m where m: "m < length ?xs" "py_max_key line_length ?xs = Inr (?xs ! m)"
    "\<forall>y\<in>set ?xs. line_length y \<le> line_length (?xs ! m)"
    "\<forall>m'<m. line_length (?xs ! m') < line_length (?xs ! m)"
    using py_max_key_first [of ?xs line_length] by blast
  have mg: "m < length g" using m(1) by simp
  then have xm: "?xs ! m = lines ! (g ! m)" by simp
  have "g ! m \<in> set g" using mg by simp
  then have inl: "lines ! (g ! m) \<in> set lines" using assms(2) by simp
  have le: "\<forall>m'<length g. line_length (lines ! (g ! m')) \<le> line_length (lines ! (g ! m))"
  proof (intro allI impI)
    fix m'
    assume a: "m' < length g"
    then have "?xs ! m' \<in> set ?xs" using nth_mem [of m' ?xs] by simp
    then have "line_length (?xs ! m') \<le> line_length (?xs ! m)" using m(3) by blast
    then show "line_length (lines ! (g ! m')) \<le> line_length (lines ! (g ! m))"
      using a mg by simp
  qed
  have lt: "\<forall>m'<m. line_length (lines ! (g ! m')) < line_length (lines ! (g ! m))"
  proof (intro allI impI)
    fix m'
    assume a: "m' < m"
    then have "line_length (?xs ! m') < line_length (?xs ! m)" using m(4) by blast
    then show "line_length (lines ! (g ! m')) < line_length (lines ! (g ! m))"
      using a mg by simp
  qed
  show ?thesis
    using True rep m(2) xm inl le lt mg by auto
next
  case False
  have g0: "0 < length g" "hd g = g ! 0"
    using assms(1) by (simp_all add: hd_conv_nth)
  have "g ! 0 \<in> set g" using g0(1) by simp
  then have "g ! 0 < length lines" using assms(2) by blast
  then show ?thesis
    using False g0 by (simp add: representative_def get_def)
qed

lemma remove_similar_lines_by_line_length:
  assumes "find_similar_lines lines threshold method = Inr groups"
  shows "\<exists>out. remove_similar_lines lines threshold method keep_longest = Inr out
    \<and> length out = length groups
    \<and> set out \<subseteq> set lines
    \<and> (\<forall>k<length groups.
          if keep_longest
          then (\<exists>m<length (groups ! k). out ! k = lines ! (groups ! k ! m)
                 \<and> (\<forall>m'<length (groups ! k).
                       line_length (lines ! (groups ! k ! m')) \<le> line_length (out ! k))
                 \<and> (\<forall>m'<m. line_length (lines ! (groups ! k ! m')) < line_length (out ! k)))
          else out ! k = lines ! hd (groups ! k))"
proof -
  let ?rep = "representative lines keep_longest"
  let ?out = "map (\<lambda>g. projr (?rep g)) groups"
  note gr = find_similar_lines_groups [OF assms]
  have rep: "\<exists>r. ?rep g = Inr r \<and> r \<in> set lines
    \<and> (if keep_longest
        then (\<exists>m<length g. r = lines ! (g ! m)
               \<and> (\<forall>m'<length g. line_length (lines ! (g ! m')) \<le> line_length r)
               \<and> (\<forall>m'<m. line_length (lines ! (g ! m')) < line_length r))
        else r = lines ! hd g)" if "g \<in> set groups" for g
    using gr that by (intro representative_ok) auto
  have "\<forall>g\<in>set groups. \<exists>r. ?rep g = Inr r"
    using rep by blast
  then have "collect (map ?rep groups) = Inr ?out"
    by (rule collect_all_Inr)
  then have 1: "remove_similar_lines lines threshold method keep_longest = Inr ?out"
    unfolding remove_similar_lines_def assms by simp
  have 2: "length ?out = length groups" by simp
  have 3: "set ?out \<subseteq> set lines"
  proof
    fix r
    assume "r \<in> set ?out"
    then obtain g where g: "g \<in> set groups" "r = projr (?rep g)" by auto
    then show "r \<in> set lines" using rep [OF g(1)] by auto
  qed
  have 4: "\<forall>k<length groups.
          if keep_longest
          then (\<exists>m<length (groups ! k). ?out ! k = lines ! (groups ! k ! m)
                 \<and> (\<forall>m'<length (groups ! k).
                       line_length (lines ! (groups ! k ! m')) \<le> line_length (?out ! k))
                 \<and> (\<forall>m'<m. line_length (lines ! (groups ! k ! m')) < line_length (?out ! k)))
          else ?out ! k = lines ! hd (groups ! k)"
  proof (intro allI impI)
    fix k
    assume k: "k < length groups"
    then have "groups ! k \<in> set groups" by simp
    from rep [OF this] obtain r where r: "?rep (groups ! k) = Inr r"
      "if keep_longest
        then (\<exists>m<length (groups ! k). r = lines ! (groups ! k ! m)
               \<and> (\<forall>m'<length (groups ! k). line_length (lines ! (groups ! k ! m')) \<le> line_length r)
               \<and> (\<forall>m'<m. line_length (lines ! (groups ! k ! m')) < line_length r))
        else r = lines ! hd (groups ! k)"
      by blast
    have "?out ! k = r" using k r(1) by simp
    then show "if keep_longest
          then (\<exists>m<length (groups ! k). ?out ! k = lines ! (groups ! k ! m)
                 \<and> (\<forall>m'<length (groups ! k).
                       line_length (lines ! (groups ! k ! m')) \<le> line_length (?out ! k))
                 \<and> (\<forall>m'<m. line_length (lines ! (groups ! k ! m')) < line_length (?out ! k)))
          else ?out ! k = lines ! hd (groups ! k)"
      using r(2) by (simp only:)
  qed
  show ?thesis
    by (rule exI [of _ ?out], intro conjI 1 2 3 4)
qed

text \<open>
  Claim C2. Whenever \<open>find_similar_lines\<close> returns groups, \<open>remove_similar_lines\<close> returns
  a list with one segment per group, in the order of the groups, and every segment of it
  is an element of the input. With \<open>keep_longest\<close> the segment for a group is a member
  whose Euclidean distance between its endpoints, \<open>sqrt ((x2 - x1)\<^sup>2 + (y2 - y1)\<^sup>2)\<close>, is
  maximal in the group, and the first such member (every earlier member is strictly
  shorter); without it, it is the segment of the founder, the first member of the group.
  No index is out of range and no group is empty, so the reduction itself raises nothing.
  The lengths are written out in the statement, which so does not depend on the
  definition of \<open>line_length\<close>.
\<close>

theorem remove_similar_lines_representatives:
  assumes "find_similar_lines lines threshold method = Inr groups"
  shows "\<exists>out. remove_similar_lines lines threshold method keep_longest = Inr out
    \<and> length out = length groups
    \<and> set out \<subseteq> set lines
    \<and> (\<forall>k<length groups.
          if keep_longest
          then (\<exists>m<length (groups ! k). out ! k = lines ! (groups ! k ! m)
                 \<and> (\<forall>m'<length (groups ! k).
                       (case lines ! (groups ! k ! m') of
                          (x1, y1, x2, y2) \<Rightarrow> sqrt ((x2 - x1)\<^sup>2 + (y2 - y1)\<^sup>2))
                       \<le> (case out ! k of
                          (x1, y1, x2, y2) \<Rightarrow> sqrt ((x2 - x1)\<^sup>2 + (y2 - y1)\<^sup>2)))
                 \<and> (\<forall>m'<m.
                       (case lines ! (groups ! k ! m') of
                          (x1, y1, x2, y2) \<Rightarrow> sqrt ((x2 - x1)\<^sup>2 + (y2 - y1)\<^sup>2))
                       < (case out ! k of
                          (x1, y1, x2, y2) \<Rightarrow> sqrt ((x2 - x1)\<^sup>2 + (y2 - y1)\<^sup>2))))
          else out ! k = lines ! hd (groups ! k))"
  using remove_similar_lines_by_line_length [OF assms, of keep_longest]
  unfolding line_length_def .

theorem remove_similar_lines_representatives_witness:
  "find_similar_lines [(0, 0, 0, 1), (0, 0, 0, 5), (0, 0, 0, 2)] (Fin 1) ''parallel'' =
     Inr [[0, 1, 2]]
   \<and> remove_similar_lines [(0, 0, 0, 1), (0, 0, 0, 5), (0, 0, 0, 2)] (Fin 1) ''parallel'' True =
       Inr [(0, 0, 0, 5)]
   \<and> remove_similar_lines [(0, 0, 0, 1), (0, 0, 0, 5), (0, 0, 0, 2)] (Fin 1) ''parallel'' False =
       Inr [(0, 0, 0, 1)]
   \<and> (\<exists>out. remove_similar_lines [(0, 0, 0, 1), (0, 0, 0, 5), (0, 0, 0, 2)] (Fin 1)
                ''parallel'' True = Inr out
          \<and> length out = length [[0, 1, 2 :: nat]])"
proof -
  have c: "calculate_line_distances [(0, 0, 0, 1), (0, 0, 0, 5), (0, 0, 0, 2)] ''parallel'' =
     Inr [[Fin 0, Fin 0, Fin 0], [Fin 0, Fin 0, Fin 0], [Fin 0, Fin 0, Fin 0]]"
    by (simp add: calculate_line_distances_def Let_def canon_cases parallel_eq set_entry_def
        needs_points_def)
  have g: "find_similar_lines [(0, 0, 0, 1), (0, 0, 0, 5), (0, 0, 0, 2)] (Fin 1) ''parallel'' =
       Inr [[0, 1, 2]]"
    unfolding find_similar_lines_def c by (simp add: Let_def numeral_2_eq_2)
  have t: "remove_similar_lines [(0, 0, 0, 1), (0, 0, 0, 5), (0, 0, 0, 2)] (Fin 1) ''parallel'' True =
       Inr [(0, 0, 0, 5)]"
    unfolding remove_similar_lines_def g
    by (simp add: representative_def get_def line_length_def)
  have f: "remove_similar_lines [(0, 0, 0, 1), (0, 0, 0, 5), (0, 0, 0, 2)] (Fin 1) ''parallel'' False =
       Inr [(0, 0, 0, 1)]"
    unfolding remove_similar_lines_def g
    by (simp add: representative_def get_def)
  have e: "\<exists>out. remove_similar_lines [(0, 0, 0, 1), (0, 0, 0, 5), (0, 0, 0, 2)] (Fin 1)
                ''parallel'' True = Inr out
          \<and> length out = length [[0, 1, 2 :: nat]]"
    using remove_similar_lines_representatives [OF g, of True]
  proof (elim exE conjE)
    fix out
    assume a: "remove_similar_lines [(0, 0, 0, 1), (0, 0, 0, 5), (0, 0, 0, 2)] (Fin 1)
                ''parallel'' True = Inr out"
      "length out = length [[0, 1, 2 :: nat]]"
    show ?thesis
      by (intro exI [of _ out] conjI a)
  qed
  show ?thesis
    by (intro conjI g t f e)
qed

end
